theory Spec2Isabelle
  imports Complex_Main "HOL-Library.Multiset" "HOL-Library.AList"
begin

section \<open>The TEP monitor: data model\<close>

text \<open>
  The repository holds two variants of one React component: the KPI dashboard
  (\<^verbatim>\<open>src/src/App.jsx\<close>) and the dashboard with the data log
  (\<^verbatim>\<open>src/unnamed/part_000\<close>). They share the sensor generation, the chart
  buffer and the click handler, and differ in the status labels, in the rule that
  recomputes a sensor's status and in the data log, which only the second one has.

  JavaScript numbers are modelled as reals (no rounding, no NaN), sensor ids as naturals,
  string literals as strings. Every call of \<^verbatim>\<open>Math.random()\<close> reads the next
  element of a sequence of draws \<open>rnd :: nat \<Rightarrow> real\<close>; every call of
  \<^verbatim>\<open>new Date().toLocaleTimeString()\<close> within one timer callback returns the
  callback's label \<open>now\<close>.
\<close>

datatype variant = KPI | LOG

record sensor =
  s_id :: nat
  s_name :: string
  s_value :: real
  s_risk :: real
  s_status :: string
  s_type :: string

datatype jsval = Num real | Str string

type_synonym point = "(string \<times> jsval) list"

record log_entry =
  l_no :: nat
  l_time :: string
  l_sensorName :: string
  l_value :: string
  l_status :: string

record app =
  sensors :: "sensor list"
  chartData :: "point list"
  selectedSensors :: "nat list"
  dataLog :: "log_entry list"

definition is_random :: "(nat \<Rightarrow> real) \<Rightarrow> bool" where
  "is_random rnd \<longleftrightarrow> (\<forall>n. 0 \<le> rnd n \<and> rnd n < 1)"

subsection \<open>Numbers as text\<close>

definition digit_char :: "nat \<Rightarrow> char" where
  "digit_char d = ''0123456789'' ! d"

function show_nat :: "nat \<Rightarrow> string" where
  "show_nat n = (if n < 10 then [digit_char n] else show_nat (n div 10) @ [digit_char (n mod 10)])"
  by pat_completeness auto
termination
  by (relation "measure (\<lambda>n. n)") auto

declare show_nat.simps [simp del]

text \<open>
  \<^verbatim>\<open>x.toFixed(2)\<close>: the integer \<open>n\<close> with \<open>n / 100\<close> nearest to \<open>\<bar>x\<bar>\<close>
  (the larger one on a tie), written with at least three digits and a point before the
  last two, after a minus sign when \<open>x < 0\<close>. (Beyond \<open>10\<^sup>2\<^sup>1\<close> JavaScript
  switches to exponent notation; sensor values never get there.)
\<close>

definition toFixed2 :: "real \<Rightarrow> string" where
  "toFixed2 x =
     (let n = nat \<lfloor>\<bar>x\<bar> * 100 + 1 / 2\<rfloor>;
          m = show_nat n;
          m' = (if length m \<le> 2 then replicate (3 - length m) (CHR ''0'') @ m else m)
      in (if x < 0 then ''-'' else '''')
         @ take (length m' - 2) m' @ ''.'' @ drop (length m' - 2) m')"

subsection \<open>Sensor generation\<close>

definition type_of_id :: "nat \<Rightarrow> string" where
  "type_of_id i =
     (if i \<le> 13 then ''temperature'' else if i \<le> 26 then ''pressure''
      else if i \<le> 39 then ''flow'' else ''composition'')"

definition initial_status :: "variant \<Rightarrow> real \<Rightarrow> string" where
  "initial_status v r =
     (case v of
        KPI \<Rightarrow> (if r > 0.8 then ''warning'' else ''normal'')
      | LOG \<Rightarrow> (if r > 0.8 then ''Critical'' else ''Normal''))"

text \<open>The object pushed for \<open>i\<close>; it is the \<open>i\<close>-th one, so its three draws are
  \<open>rnd (3 * (i - 1))\<close> and the two after it.\<close>

definition new_sensor :: "variant \<Rightarrow> (nat \<Rightarrow> real) \<Rightarrow> nat \<Rightarrow> sensor" where
  "new_sensor v rnd i =
     \<lparr> s_id = i,
       s_name = ''XMEAS_'' @ show_nat i,
       s_value = rnd (3 * (i - 1)) * 100,
       s_risk = rnd (3 * (i - 1) + 1) * 100,
       s_status = initial_status v (rnd (3 * (i - 1) + 2)),
       s_type = type_of_id i \<rparr>"

text \<open>\<^verbatim>\<open>for (let i = 1; i <= 52; i++) sensors.push(...)\<close>\<close>

function gen_loop :: "variant \<Rightarrow> (nat \<Rightarrow> real) \<Rightarrow> nat \<Rightarrow> sensor list \<Rightarrow> sensor list" where
  "gen_loop v rnd i acc =
     (if i \<le> 52 then gen_loop v rnd (i + 1) (acc @ [new_sensor v rnd i]) else acc)"
  by pat_completeness auto
termination
  by (relation "measure (\<lambda>(v, rnd, i, acc). 53 - i)") auto

declare gen_loop.simps [simp del]

text \<open>\<^verbatim>\<open>xs.sort((a, b) => b.risk - a.risk)\<close>: the stable sort by descending risk.\<close>

definition sort_by_risk :: "sensor list \<Rightarrow> sensor list" where
  "sort_by_risk xs = sort_key (\<lambda>s. - s_risk s) xs"

definition generateTEPData :: "variant \<Rightarrow> (nat \<Rightarrow> real) \<Rightarrow> sensor list" where
  "generateTEPData v rnd = sort_by_risk (gen_loop v rnd 1 [])"

subsection \<open>The timer callback\<close>

text \<open>The status of the new object: \<open>r\<close> is its draw, \<open>s\<close> the sensor being replaced
  (App.jsx line 64, part\_000 line 81).\<close>

definition tick_status :: "variant \<Rightarrow> real \<Rightarrow> sensor \<Rightarrow> string" where
  "tick_status v r s =
     (case v of
        KPI \<Rightarrow> (if r > 0.9 then ''warning'' else if s_value s > 80 then ''warning'' else ''normal'')
      | LOG \<Rightarrow> (if r > 0.85 then ''Critical'' else ''Normal''))"

definition update_sensor :: "variant \<Rightarrow> real \<Rightarrow> real \<Rightarrow> real \<Rightarrow> sensor \<Rightarrow> sensor" where
  "update_sensor v r1 r2 r3 s =
     s \<lparr> s_value := max 0 (min 100 (s_value s + (r1 - 0.5) * 5)),
         s_risk := max 0 (min 100 (s_risk s + (r2 - 0.5) * 3)),
         s_status := tick_status v r3 s \<rparr>"

text \<open>\<^verbatim>\<open>prev.map(s => ...)\<close>, \<open>k\<close> draws having been read before.\<close>

fun updated :: "variant \<Rightarrow> (nat \<Rightarrow> real) \<Rightarrow> nat \<Rightarrow> sensor list \<Rightarrow> sensor list" where
  "updated v rnd k [] = []"
| "updated v rnd k (s # ss) =
     update_sensor v (rnd k) (rnd (k + 1)) (rnd (k + 2)) s # updated v rnd (k + 3) ss"

definition tick_sensors :: "variant \<Rightarrow> (nat \<Rightarrow> real) \<Rightarrow> sensor list \<Rightarrow> sensor list" where
  "tick_sensors v rnd prev = sort_by_risk (updated v rnd 0 prev)"

definition sensor_key :: "nat \<Rightarrow> string" where
  "sensor_key sensorId = ''sensor_'' @ show_nat sensorId"

text \<open>The body of \<^verbatim>\<open>selectedSensors.forEach\<close>: \<open>find\<close> gives the first sensor
  with the id or nothing, and the key is written only when it gives one.\<close>

definition add_series :: "sensor list \<Rightarrow> nat \<Rightarrow> point \<Rightarrow> point" where
  "add_series arr sensorId dataPoint =
     (case find (\<lambda>s. s_id s = sensorId) arr of
        None \<Rightarrow> dataPoint
      | Some sensor \<Rightarrow> AList.update (sensor_key sensorId) (Num (s_value sensor)) dataPoint)"

definition build_point :: "sensor list \<Rightarrow> nat list \<Rightarrow> string \<Rightarrow> point" where
  "build_point arr sel now = fold (add_series arr) sel [(''time'', Str now)]"

text \<open>The updater of \<^verbatim>\<open>setChartData\<close>; \<^verbatim>\<open>prev.slice(-29)\<close> keeps the last 29
  points, or all of them when there are fewer.\<close>

definition appendSample :: "sensor list \<Rightarrow> nat list \<Rightarrow> string \<Rightarrow> point list \<Rightarrow> point list" where
  "appendSample arr sel now prev =
     drop (length prev - 29) prev @ [build_point arr sel now]"

text \<open>The updater of \<^verbatim>\<open>setDataLog\<close> (part\_000 lines 105 to 114).\<close>

definition recentSensors :: "sensor list \<Rightarrow> string \<Rightarrow> log_entry list \<Rightarrow> log_entry list" where
  "recentSensors arr now prev =
     map (\<lambda>(idx, s). \<lparr> l_no = length prev + idx + 1,
                       l_time = now,
                       l_sensorName = s_name s,
                       l_value = toFixed2 (s_value s),
                       l_status = s_status s \<rparr>)
         (enumerate 0 (take 5 arr))"

definition appendLog :: "sensor list \<Rightarrow> string \<Rightarrow> log_entry list \<Rightarrow> log_entry list" where
  "appendLog arr now prev = take 100 (recentSensors arr now prev @ prev)"

text \<open>
  One firing of the interval. The three updaters receive the latest state of their own
  variable; \<open>sensors\<close> and \<open>selectedSensors\<close> inside the chart and log updaters are the
  variables of the enclosing render, that is the state the callback starts from (the
  effect is registered anew whenever either of them changes).
\<close>

definition tick :: "variant \<Rightarrow> (nat \<Rightarrow> real) \<Rightarrow> string \<Rightarrow> app \<Rightarrow> app" where
  "tick v rnd now st =
     st \<lparr> sensors := tick_sensors v rnd (sensors st),
          chartData := appendSample (sensors st) (selectedSensors st) now (chartData st),
          dataLog := (case v of KPI \<Rightarrow> dataLog st
                      | LOG \<Rightarrow> appendLog (sensors st) now (dataLog st)) \<rparr>"

text \<open>A run of the timer: one pair of draws and clock label for each firing.\<close>

fun run :: "variant \<Rightarrow> ((nat \<Rightarrow> real) \<times> string) list \<Rightarrow> app \<Rightarrow> app" where
  "run v [] st = st"
| "run v ((rnd, now) # ins) st = run v ins (tick v rnd now st)"

text \<open>The chart points the firings of a run build, in order.\<close>

fun run_points :: "variant \<Rightarrow> ((nat \<Rightarrow> real) \<times> string) list \<Rightarrow> app \<Rightarrow> point list" where
  "run_points v [] st = []"
| "run_points v ((rnd, now) # ins) st =
     build_point (sensors st) (selectedSensors st) now # run_points v ins (tick v rnd now st)"

text \<open>The sequence numbers the firings of a run of the log variant give to the entries they
  create, one list for each firing.\<close>

fun log_numbers :: "((nat \<Rightarrow> real) \<times> string) list \<Rightarrow> app \<Rightarrow> nat list list" where
  "log_numbers [] st = []"
| "log_numbers ((rnd, now) # ins) st =
     map l_no (recentSensors (sensors st) now (dataLog st)) # log_numbers ins (tick LOG rnd now st)"

subsection \<open>Selection\<close>

definition handleSensorClick :: "nat \<Rightarrow> nat list \<Rightarrow> nat list" where
  "handleSensorClick sensorId sel =
     (if sensorId \<in> set sel then filter (\<lambda>i. i \<noteq> sensorId) sel
      else if length sel < 3 then sel @ [sensorId]
      else drop 1 sel @ [sensorId])"

subsection \<open>Derived values\<close>

definition alertCount :: "sensor list \<Rightarrow> nat" where
  "alertCount arr = length (filter (\<lambda>s. s_status s = ''Critical'') arr)"

definition systemStatus :: "sensor list \<Rightarrow> string" where
  "systemStatus arr =
     (if alertCount arr = 0 then ''NORMAL''
      else if alertCount arr < 5 then ''WARNING'' else ''CRITICAL'')"

subsection \<open>The initial state\<close>

text \<open>The \<^verbatim>\<open>useState\<close> initialisers of \<^verbatim>\<open>App\<close>.\<close>

definition init_app :: "variant \<Rightarrow> (nat \<Rightarrow> real) \<Rightarrow> app" where
  "init_app v rnd =
     \<lparr> sensors = generateTEPData v rnd, chartData = [], selectedSensors = [1, 2, 3],
       dataLog = [] \<rparr>"

subsection \<open>Specification vocabulary\<close>

text \<open>\<open>clamp\<close> as the specification uses it, and the invariants it states for the
  sensor collection and the selection.\<close>

definition clamp :: "real \<Rightarrow> real \<Rightarrow> real \<Rightarrow> real" where
  "clamp x lo hi = (if x < lo then lo else if hi < x then hi else x)"

definition in_range :: "sensor \<Rightarrow> bool" where
  "in_range s \<longleftrightarrow> 0 \<le> s_value s \<and> s_value s \<le> 100 \<and> 0 \<le> s_risk s \<and> s_risk s \<le> 100"

definition collection_ok :: "sensor list \<Rightarrow> bool" where
  "collection_ok arr \<longleftrightarrow>
     length arr = 52 \<and> distinct (map s_id arr) \<and> set (map s_id arr) = {1..52}
     \<and> sorted_wrt (\<lambda>a b. s_risk a \<ge> s_risk b) arr"

definition selection_ok :: "nat list \<Rightarrow> bool" where
  "selection_ok sel \<longleftrightarrow> length sel \<le> 3 \<and> distinct sel"

subsection \<open>Example inputs\<close>

text \<open>A sensor reporting \<open>Critical\<close>, a temperature sensor with a given value, a state
  whose selection holds an id (2) that no sensor has, and \<open>n\<close> firings that all draw
  \<open>0.9\<close> and are labelled \<open>tick 1\<close>, \<open>tick 2\<close>, and so on.\<close>

definition crit :: "nat \<Rightarrow> sensor" where
  "crit i = \<lparr>s_id = i, s_name = ''XMEAS_'' @ show_nat i, s_value = 50, s_risk = 50,
      s_status = ''Critical'', s_type = type_of_id i\<rparr>"

definition hot :: "real \<Rightarrow> sensor" where
  "hot x = \<lparr>s_id = 1, s_name = ''XMEAS_1'', s_value = x, s_risk = 50,
      s_status = ''normal'', s_type = ''temperature''\<rparr>"

definition stale :: app where
  "stale = \<lparr> sensors = [hot 79], chartData = [], selectedSensors = [1, 2], dataLog = [] \<rparr>"

definition example_ticks :: "nat \<Rightarrow> ((nat \<Rightarrow> real) \<times> string) list" where
  "example_ticks n = map (\<lambda>k. (\<lambda>n. 9 / 10, ''tick '' @ show_nat (Suc k))) [0..<n]"

section \<open>Update engine\<close>

lemma max_min_clamp: "max 0 (min 100 x) = clamp x 0 100"
  by (simp add: clamp_def)

lemma length_updated [simp]: "length (updated v rnd k ss) = length ss"
  by (induction ss arbitrary: k) auto

lemma updated_nth:
  "i < length ss \<Longrightarrow>
   updated v rnd k ss ! i
     = update_sensor v (rnd (k + 3 * i)) (rnd (k + 3 * i + 1)) (rnd (k + 3 * i + 2)) (ss ! i)"
proof (induction ss arbitrary: k i)
  case Nil
  then show ?case by simp
next
  case (Cons s ss)
  show ?case
  proof (cases i)
    case 0
    then show ?thesis by simp
  next
    case (Suc j)
    with Cons.prems have "j < length ss" by simp
    from Cons.IH [OF this, of "k + 3"] Suc show ?thesis
      by (simp add: algebra_simps)
  qed
qed

lemma mset_sort_by_risk [simp]: "mset (sort_by_risk xs) = mset xs"
  by (simp add: sort_by_risk_def)

lemma set_sort_by_risk [simp]: "set (sort_by_risk xs) = set xs"
  by (simp add: sort_by_risk_def)

lemma length_sort_by_risk [simp]: "length (sort_by_risk xs) = length xs"
  by (simp add: sort_by_risk_def)

lemma sorted_sort_by_risk: "sorted_wrt (\<lambda>a b. s_risk a \<ge> s_risk b) (sort_by_risk xs)"
proof -
  have "sorted (map (\<lambda>s. - s_risk s) (sort_by_risk xs))"
    unfolding sort_by_risk_def by (rule sorted_sort_key)
  then show ?thesis by (simp add: sorted_map)
qed

lemma update_sensor_fields [simp]:
  "s_id (update_sensor v r1 r2 r3 s) = s_id s"
  "s_name (update_sensor v r1 r2 r3 s) = s_name s"
  "s_type (update_sensor v r1 r2 r3 s) = s_type s"
  "s_value (update_sensor v r1 r2 r3 s) = max 0 (min 100 (s_value s + (r1 - 0.5) * 5))"
  "s_risk (update_sensor v r1 r2 r3 s) = max 0 (min 100 (s_risk s + (r2 - 0.5) * 3))"
  "s_status (update_sensor v r1 r2 r3 s) = tick_status v r3 s"
  by (simp_all add: update_sensor_def)

lemma map_id_updated [simp]: "map s_id (updated v rnd k ss) = map s_id ss"
  by (induction ss arbitrary: k) auto

lemma in_range_updated: "s \<in> set (updated v rnd k ss) \<Longrightarrow> in_range s"
  by (induction ss arbitrary: k) (auto simp: in_range_def)

text \<open>
  C1. With every draw in \<open>[0, 1)\<close>, one tick maps the sensor at each index \<open>i\<close> of the
  array to a sensor with the same id whose value is \<open>clamp (value + dv) 0 100\<close> and whose
  risk is \<open>clamp (risk + dr) 0 100\<close> for some \<open>dv\<close> in \<open>[-2.5, 2.5]\<close> and \<open>dr\<close> in
  \<open>[-1.5, 1.5]\<close>; the new array is a rearrangement of these sensors, so every value and
  risk in it lies in \<open>[0, 100]\<close>. (The bound on the values before the tick is not needed.)
\<close>

theorem tick_clamps:
  assumes "is_random rnd"
  shows "mset (tick_sensors v rnd prev) = mset (updated v rnd 0 prev)
         \<and> length (updated v rnd 0 prev) = length prev
         \<and> (\<forall>i<length prev. \<exists>dv dr.
               - 2.5 \<le> dv \<and> dv \<le> 2.5 \<and> - 1.5 \<le> dr \<and> dr \<le> 1.5
               \<and> s_id (updated v rnd 0 prev ! i) = s_id (prev ! i)
               \<and> s_value (updated v rnd 0 prev ! i) = clamp (s_value (prev ! i) + dv) 0 100
               \<and> s_risk (updated v rnd 0 prev ! i) = clamp (s_risk (prev ! i) + dr) 0 100)
         \<and> (\<forall>s \<in> set (tick_sensors v rnd prev). in_range s)"
proof -
  have perturbed: "\<exists>dv dr.
      - 2.5 \<le> dv \<and> dv \<le> 2.5 \<and> - 1.5 \<le> dr \<and> dr \<le> 1.5
      \<and> s_id (updated v rnd 0 prev ! i) = s_id (prev ! i)
      \<and> s_value (updated v rnd 0 prev ! i) = clamp (s_value (prev ! i) + dv) 0 100
      \<and> s_risk (updated v rnd 0 prev ! i) = clamp (s_risk (prev ! i) + dr) 0 100"
    if i: "i < length prev" for i
  proof -
    define dv where "dv = (rnd (3 * i) - 0.5) * 5"
    define dr where "dr = (rnd (3 * i + 1) - 0.5) * 3"
    from assms have "0 \<le> rnd (3 * i)" "rnd (3 * i) < 1" "0 \<le> rnd (3 * i + 1)" "rnd (3 * i + 1) < 1"
      by (simp_all add: is_random_def)
    then have "- 2.5 \<le> dv" "dv \<le> 2.5" "- 1.5 \<le> dr" "dr \<le> 1.5"
      by (simp_all add: dv_def dr_def)
    moreover have "s_value (updated v rnd 0 prev ! i) = clamp (s_value (prev ! i) + dv) 0 100"
      "s_risk (updated v rnd 0 prev ! i) = clamp (s_risk (prev ! i) + dr) 0 100"
      "s_id (updated v rnd 0 prev ! i) = s_id (prev ! i)"
      using i by (simp_all add: updated_nth max_min_clamp dv_def dr_def)
    ultimately show ?thesis by blast
  qed
  have "\<forall>s \<in> set (tick_sensors v rnd prev). in_range s"
    by (simp add: tick_sensors_def in_range_updated)
  with perturbed show ?thesis by (simp add: tick_sensors_def)
qed


theorem tick_clamps_witness:
  "is_random (\<lambda>n. 9 / 10)
   \<and> tick_sensors LOG (\<lambda>n. 9 / 10)
        [\<lparr>s_id = 1, s_name = ''XMEAS_1'', s_value = 99, s_risk = 1, s_status = ''Normal'',
          s_type = ''temperature''\<rparr>]
      = [\<lparr>s_id = 1, s_name = ''XMEAS_1'', s_value = 100, s_risk = 11 / 5, s_status = ''Critical'',
          s_type = ''temperature''\<rparr>]
   \<and> in_range (hd (tick_sensors LOG (\<lambda>n. 9 / 10)
        [\<lparr>s_id = 1, s_name = ''XMEAS_1'', s_value = 99, s_risk = 1, s_status = ''Normal'',
          s_type = ''temperature''\<rparr>]))"
proof -
  have r: "is_random (\<lambda>n. 9 / 10)" by (simp add: is_random_def)
  have e: "tick_sensors LOG (\<lambda>n. 9 / 10)
        [\<lparr>s_id = 1, s_name = ''XMEAS_1'', s_value = 99, s_risk = 1, s_status = ''Normal'',
          s_type = ''temperature''\<rparr>]
      = [\<lparr>s_id = 1, s_name = ''XMEAS_1'', s_value = 100, s_risk = 11 / 5, s_status = ''Critical'',
          s_type = ''temperature''\<rparr>]"
    by (simp add: tick_sensors_def sort_by_risk_def update_sensor_def tick_status_def)
  from tick_clamps [OF r, of LOG "[\<lparr>s_id = 1, s_name = ''XMEAS_1'', s_value = 99, s_risk = 1,
      s_status = ''Normal'', s_type = ''temperature''\<rparr>]"]
  have "\<forall>s \<in> set (tick_sensors LOG (\<lambda>n. 9 / 10)
        [\<lparr>s_id = 1, s_name = ''XMEAS_1'', s_value = 99, s_risk = 1, s_status = ''Normal'',
          s_type = ''temperature''\<rparr>]). in_range s"
    by blast
  then have "in_range (hd (tick_sensors LOG (\<lambda>n. 9 / 10)
        [\<lparr>s_id = 1, s_name = ''XMEAS_1'', s_value = 99, s_risk = 1, s_status = ''Normal'',
          s_type = ''temperature''\<rparr>]))"
    unfolding e by simp
  with r e show ?thesis by blast
qed

lemma gen_loop_map:
  "i \<le> 53 \<Longrightarrow> gen_loop v rnd i acc = acc @ map (new_sensor v rnd) [i..<53]"
proof (induction v rnd i acc rule: gen_loop.induct)
  case (1 v rnd i acc)
  show ?case
  proof (cases "i \<le> 52")
    case True
    then have "gen_loop v rnd i acc = gen_loop v rnd (i + 1) (acc @ [new_sensor v rnd i])"
      by (subst gen_loop.simps) simp
    also have "\<dots> = (acc @ [new_sensor v rnd i]) @ map (new_sensor v rnd) [i + 1..<53]"
      using True by (intro "1.IH") simp_all
    also have "\<dots> = acc @ map (new_sensor v rnd) [i..<53]"
      using True by (simp add: upt_conv_Cons)
    finally show ?thesis .
  next
    case False
    with "1.prems" have "i = 53" by simp
    then show ?thesis by (subst gen_loop.simps) simp
  qed
qed

lemma s_id_new_sensor [simp]: "s_id (new_sensor v rnd i) = i"
  by (simp add: new_sensor_def)

lemma map_id_new_sensor: "map s_id (map (new_sensor v rnd) [i..<n]) = [i..<n]"
  by (simp add: comp_def map_idI del: upt_rec_numeral)

lemma gen_loop_ids: "map s_id (gen_loop v rnd 1 []) = [1..<53]"
  using gen_loop_map [of 1 v rnd "[]"] map_id_new_sensor [of v rnd 1 53]
  by (simp del: upt_rec_numeral)

lemma collection_ok_sort:
  assumes "mset (map s_id xs) = mset [1..<53]"
  shows "collection_ok (sort_by_risk xs)"
proof -
  have m: "mset (map s_id (sort_by_risk xs)) = mset [1..<53]"
    using assms by simp
  have "distinct (map s_id (sort_by_risk xs))"
    using m distinct_upt mset_eq_imp_distinct_iff by blast
  moreover have "set (map s_id (sort_by_risk xs)) = {1..<53}"
    using mset_eq_setD [OF m] by (simp only: set_upt)
  moreover have "{1..<53} = {1..52::nat}" by auto
  moreover have "length (sort_by_risk xs) = 52"
  proof -
    have "length (map s_id (sort_by_risk xs)) = length [1..<53::nat]"
      using m by (rule mset_eq_length)
    then show ?thesis by (simp del: upt_rec_numeral)
  qed
  ultimately show ?thesis by (simp add: collection_ok_def sorted_sort_by_risk del: upt_rec_numeral)
qed

lemma collection_ok_ids: "collection_ok xs \<Longrightarrow> mset (map s_id xs) = mset [1..<53]"
proof -
  assume a: "collection_ok xs"
  have "{1..52::nat} = {1..<53}" by auto
  with a have "distinct (map s_id xs)" "set (map s_id xs) = set [1..<53]"
    by (simp_all add: collection_ok_def del: upt_rec_numeral)
  then show ?thesis
    using distinct_upt set_eq_iff_mset_eq_distinct by blast
qed

lemma collection_ok_generate: "collection_ok (generateTEPData v rnd)"
  unfolding generateTEPData_def
  by (rule collection_ok_sort) (simp only: gen_loop_ids)

lemma collection_ok_tick_sensors:
  assumes "collection_ok arr"
  shows "collection_ok (tick_sensors v rnd arr)"
  unfolding tick_sensors_def
  by (rule collection_ok_sort) (simp only: map_id_updated collection_ok_ids [OF assms])

lemma sensors_tick [simp]: "sensors (tick v rnd now st) = tick_sensors v rnd (sensors st)"
  by (simp add: tick_def)

lemma collection_ok_run:
  "collection_ok (sensors st) \<Longrightarrow> collection_ok (sensors (run v ins st))"
  by (induction v ins st rule: run.induct) (simp_all add: collection_ok_tick_sensors)

text \<open>
  C2. The array \<open>generateTEPData\<close> returns, and the array after any number of ticks from
  the initial state, has 52 sensors, the ids 1 to 52 once each, and is sorted by descending
  risk; a tick keeps these three properties on any state that has them.
\<close>

theorem collection_invariant:
  "collection_ok (generateTEPData v rnd0)
   \<and> collection_ok (sensors (run v ins (init_app v rnd0)))
   \<and> (collection_ok (sensors st) \<longrightarrow> collection_ok (sensors (tick v rnd now st)))"
  using collection_ok_run [of "init_app v rnd0" v ins]
  by (simp add: collection_ok_generate collection_ok_tick_sensors init_app_def)

theorem collection_invariant_witness:
  "collection_ok (sensors (init_app LOG (\<lambda>n. 1 / 4)))
   \<and> collection_ok (sensors (tick LOG (\<lambda>n. 1 / 2) ''12:00:01'' (init_app LOG (\<lambda>n. 1 / 4))))
   \<and> collection_ok (sensors (run KPI [(\<lambda>n. 1 / 2, ''12:00:01''), (\<lambda>n. 1 / 3, ''12:00:02'')]
        (init_app KPI (\<lambda>n. 1 / 4))))"
proof -
  have a: "collection_ok (sensors (init_app LOG (\<lambda>n. 1 / 4)))"
    using collection_invariant [of LOG "\<lambda>n. 1 / 4" "[]"] by (simp add: init_app_def)
  from a collection_invariant [of LOG "\<lambda>n. 1 / 4" "[]" "init_app LOG (\<lambda>n. 1 / 4)" "\<lambda>n. 1 / 2" "''12:00:01''"]
  have b: "collection_ok (sensors (tick LOG (\<lambda>n. 1 / 2) ''12:00:01'' (init_app LOG (\<lambda>n. 1 / 4))))"
    by blast
  from collection_invariant [of KPI "\<lambda>n. 1 / 4" "[(\<lambda>n. 1 / 2, ''12:00:01''), (\<lambda>n. 1 / 3, ''12:00:02'')]"]
  have c: "collection_ok (sensors (run KPI [(\<lambda>n. 1 / 2, ''12:00:01''), (\<lambda>n. 1 / 3, ''12:00:02'')]
        (init_app KPI (\<lambda>n. 1 / 4))))"
    by blast
  from a b c show ?thesis by blast
qed

section \<open>Derived status\<close>

text \<open>
  C7. \<open>alertCount\<close> is the number of sensors whose status is \<open>Critical\<close>, and the system
  status is \<open>NORMAL\<close> exactly when it is 0, \<open>WARNING\<close> exactly when it is between 1 and 4,
  \<open>CRITICAL\<close> exactly when it is at least 5.
\<close>

theorem system_status_thresholds:
  "alertCount arr = size {#s \<in># mset arr. s_status s = ''Critical''#}
   \<and> (systemStatus arr = ''NORMAL'' \<longleftrightarrow> alertCount arr = 0)
   \<and> (systemStatus arr = ''WARNING'' \<longleftrightarrow> 1 \<le> alertCount arr \<and> alertCount arr \<le> 4)
   \<and> (systemStatus arr = ''CRITICAL'' \<longleftrightarrow> 5 \<le> alertCount arr)"
proof -
  have "alertCount arr = size {#s \<in># mset arr. s_status s = ''Critical''#}"
    by (simp add: alertCount_def flip: mset_filter)
  moreover have "systemStatus arr = ''NORMAL'' \<longleftrightarrow> alertCount arr = 0"
    by (simp add: systemStatus_def)
  moreover have "systemStatus arr = ''WARNING'' \<longleftrightarrow> 1 \<le> alertCount arr \<and> alertCount arr \<le> 4"
    by (auto simp: systemStatus_def)
  moreover have "systemStatus arr = ''CRITICAL'' \<longleftrightarrow> 5 \<le> alertCount arr"
    by (auto simp: systemStatus_def)
  ultimately show ?thesis by blast
qed

theorem system_status_thresholds_witness:
  "systemStatus [] = ''NORMAL''
   \<and> systemStatus [crit 1, crit 2, crit 3, crit 4] = ''WARNING''
   \<and> systemStatus [crit 1, crit 2, crit 3, crit 4, crit 5] = ''CRITICAL''"
proof -
  have "alertCount [] = 0" "alertCount [crit 1, crit 2, crit 3, crit 4] = 4"
    "alertCount [crit 1, crit 2, crit 3, crit 4, crit 5] = 5"
    by (simp_all add: alertCount_def crit_def)
  then show ?thesis
    using system_status_thresholds [of "[]"]
      system_status_thresholds [of "[crit 1, crit 2, crit 3, crit 4]"]
      system_status_thresholds [of "[crit 1, crit 2, crit 3, crit 4, crit 5]"]
    by simp
qed

section \<open>The value-based status rule\<close>

text \<open>
  C8 as stated fails: the rule of App.jsx reads \<open>s.value\<close>, the value before the update.
  A sensor at 79 that moves to 81 stays \<open>normal\<close>, one at 81 that moves to 79 is
  \<open>warning\<close>, both with a draw of \<open>1/2\<close> that does not force the warning.
\<close>

theorem status_rule_counterexample:
  "(1 / 2 :: real) \<le> 0.9
   \<and> s_value (update_sensor KPI (9 / 10) (1 / 2) (1 / 2) (hot 79)) = 81
   \<and> s_status (update_sensor KPI (9 / 10) (1 / 2) (1 / 2) (hot 79)) = ''normal''
   \<and> s_value (update_sensor KPI (1 / 10) (1 / 2) (1 / 2) (hot 81)) = 79
   \<and> s_status (update_sensor KPI (1 / 10) (1 / 2) (1 / 2) (hot 81)) = ''warning''"
  by (simp add: update_sensor_def tick_status_def hot_def)

text \<open>
  C8, amended. In the KPI variant, when the status draw of the sensor at index \<open>i\<close> is not
  above \<open>0.9\<close>, its new status is \<open>warning\<close> exactly when its value before the update
  exceeds 80, and \<open>normal\<close> otherwise.
\<close>

theorem status_rule_pre_update:
  assumes "i < length prev" and "\<not> rnd (3 * i + 2) > 0.9"
  shows "(s_status (updated KPI rnd 0 prev ! i) = ''warning'' \<longleftrightarrow> s_value (prev ! i) > 80)
         \<and> (s_status (updated KPI rnd 0 prev ! i) = ''normal'' \<longleftrightarrow> \<not> s_value (prev ! i) > 80)
         \<and> s_id (updated KPI rnd 0 prev ! i) = s_id (prev ! i)
         \<and> mset (tick_sensors KPI rnd prev) = mset (updated KPI rnd 0 prev)"
  using assms by (simp add: updated_nth tick_status_def tick_sensors_def)

theorem status_rule_pre_update_witness:
  "(0::nat) < length [hot 79] \<and> \<not> (1 / 2 :: real) > 0.9
   \<and> s_status (updated KPI (\<lambda>n. if n = 0 then 9 / 10 else 1 / 2) 0 [hot 79] ! 0) = ''normal''
   \<and> s_value (updated KPI (\<lambda>n. if n = 0 then 9 / 10 else 1 / 2) 0 [hot 79] ! 0) = 81"
  using status_rule_pre_update [of 0 "[hot 79]" "\<lambda>n. if n = 0 then 9 / 10 else 1 / 2"]
  by (simp add: hot_def)

section \<open>Selection manager\<close>

lemma filter_neq_remove1: "distinct sel \<Longrightarrow> filter (\<lambda>i. i \<noteq> x) sel = remove1 x sel"
  by (induction sel) (auto simp: remove1_idem)

lemma filter_neq_absent: "x \<notin> set sel \<Longrightarrow> filter (\<lambda>i. i \<noteq> x) sel = sel"
  by (induction sel) auto

text \<open>
  C3. On a selection of at most three distinct ids, a click on \<open>x\<close> removes \<open>x\<close> when it
  is selected, appends it at the end when it is not and fewer than three ids are selected,
  and otherwise drops the id at index 0 and appends \<open>x\<close>; the result again has at most
  three distinct ids. A click on 4 turns \<open>[1, 2, 3]\<close> into \<open>[2, 3, 4]\<close>.
\<close>

theorem toggle_cases:
  assumes "selection_ok sel"
  shows "handleSensorClick x sel =
           (if x \<in> set sel then remove1 x sel
            else if length sel < 3 then sel @ [x]
            else [sel ! 1, sel ! 2, x])
         \<and> selection_ok (handleSensorClick x sel)
         \<and> handleSensorClick 4 [1, 2, 3] = [2, 3, 4]"
proof -
  from assms have len: "length sel \<le> 3" and d: "distinct sel"
    by (simp_all add: selection_ok_def)
  have a: "x \<in> set sel \<Longrightarrow> handleSensorClick x sel = remove1 x sel"
    using d by (simp add: handleSensorClick_def filter_neq_remove1)
  have b: "x \<notin> set sel \<Longrightarrow> length sel < 3 \<Longrightarrow> handleSensorClick x sel = sel @ [x]"
    by (simp add: handleSensorClick_def)
  have c: "handleSensorClick x sel = [sel ! 1, sel ! 2, x]"
    if "x \<notin> set sel" "\<not> length sel < 3"
  proof -
    from that len have "length sel = 3" by simp
    then obtain p q r where "sel = [p, q, r]"
      by (auto simp: numeral_3_eq_3 length_Suc_conv)
    with that show ?thesis by (simp add: handleSensorClick_def)
  qed
  have ok: "selection_ok (handleSensorClick x sel)"
  proof (cases "x \<in> set sel")
    case True
    then show ?thesis using a len d
      by (simp add: selection_ok_def length_remove1)
  next
    case False
    show ?thesis
    proof (cases "length sel < 3")
      case True
      then show ?thesis using b False d by (simp add: selection_ok_def)
    next
      case False
      with len have "length sel = 3" "handleSensorClick x sel = drop 1 sel @ [x]"
        using \<open>x \<notin> set sel\<close> by (simp_all add: handleSensorClick_def)
      then show ?thesis using d \<open>x \<notin> set sel\<close>
        by (auto simp: selection_ok_def distinct_drop dest: in_set_dropD)
    qed
  qed
  have e: "handleSensorClick 4 [1, 2, 3] = [2, 3, 4]"
    by (simp add: handleSensorClick_def)
  from a b c ok e show ?thesis by simp
qed

theorem toggle_cases_witness:
  "selection_ok [1, 2, 3] \<and> handleSensorClick 7 [1, 2, 3] = [2, 3, 7]
   \<and> selection_ok (handleSensorClick 7 [1, 2, 3])"
  using toggle_cases [of "[1, 2, 3]" 7] by (simp add: selection_ok_def)

text \<open>
  C5 as stated fails: clicking twice on an id that was selected moves it to the end, and
  clicking twice on a fourth id loses the id that was evicted.
\<close>

theorem toggle_twice_counterexample:
  "handleSensorClick 1 (handleSensorClick 1 [1, 2, 3]) = [2, 3, 1]
   \<and> handleSensorClick 4 (handleSensorClick 4 [1, 2, 3]) = [2, 3]"
  by (simp add: handleSensorClick_def)

text \<open>
  C5, amended. Two clicks on \<open>x\<close> give the selection back exactly when \<open>x\<close> was not
  selected and fewer than three ids were (add, then remove), or when \<open>x\<close> was its last
  element, occurred only there, and at most three ids were selected (remove, then add at
  the end again).
\<close>

theorem toggle_twice:
  "handleSensorClick x (handleSensorClick x sel) = sel
   \<longleftrightarrow> (x \<notin> set sel \<and> length sel < 3)
       \<or> (length sel \<le> 3 \<and> sel = filter (\<lambda>i. i \<noteq> x) sel @ [x])"
proof (cases "x \<in> set sel")
  case False
  show ?thesis
  proof (cases "length sel < 3")
    case True
    with False show ?thesis
      by (simp add: handleSensorClick_def filter_neq_absent)
  next
    case False
    have "x \<notin> set (drop 1 sel)" using \<open>x \<notin> set sel\<close> by (auto dest: in_set_dropD)
    then have "handleSensorClick x (handleSensorClick x sel) = drop 1 sel"
      using False \<open>x \<notin> set sel\<close>
      by (simp add: handleSensorClick_def filter_neq_absent)
    then have "length (handleSensorClick x (handleSensorClick x sel)) \<noteq> length sel"
      using False by simp
    moreover have "sel \<noteq> filter (\<lambda>i. i \<noteq> x) sel @ [x]"
      using \<open>x \<notin> set sel\<close> by (simp add: filter_neq_absent)
    ultimately show ?thesis using False by auto
  qed
next
  case True
  define t where "t = filter (\<lambda>i. i \<noteq> x) sel"
  have t1: "handleSensorClick x sel = t" using True by (simp add: handleSensorClick_def t_def)
  have t2: "x \<notin> set t" by (simp add: t_def)
  have t3: "length t < length sel"
    unfolding t_def using True by (simp add: length_filter_less)
  have "handleSensorClick x t = sel \<longleftrightarrow> length sel \<le> 3 \<and> sel = t @ [x]"
  proof (cases "length t < 3")
    case True
    then have "handleSensorClick x t = t @ [x]" using t2 by (simp add: handleSensorClick_def)
    moreover have "length sel \<le> 3" if "sel = t @ [x]"
    proof -
      from that have "length sel = Suc (length t)" by simp
      with True show ?thesis by simp
    qed
    ultimately show ?thesis by auto
  next
    case False
    then have "length (handleSensorClick x t) = length t" using t2
      by (simp add: handleSensorClick_def)
    then have "handleSensorClick x t \<noteq> sel" using t3 by auto
    moreover have "\<not> (length sel \<le> 3 \<and> sel = t @ [x])" using False t3 by auto
    ultimately show ?thesis by simp
  qed
  then show ?thesis using True by (simp add: t1 t_def)
qed

theorem toggle_twice_witness:
  "handleSensorClick 3 (handleSensorClick 3 [1, 2]) = [1, 2]
   \<and> handleSensorClick 3 (handleSensorClick 3 [1, 2, 3]) = [1, 2, 3]
   \<and> handleSensorClick 1 (handleSensorClick 1 [1, 2, 3]) \<noteq> [1, 2, 3]"
  using toggle_twice [of 3 "[1, 2]"] toggle_twice [of 3 "[1, 2, 3]"] toggle_twice [of 1 "[1, 2, 3]"]
  by simp

section \<open>Chart points\<close>

subsection \<open>The keys of a point\<close>

lemma digit_char_inj: "a < 10 \<Longrightarrow> b < 10 \<Longrightarrow> digit_char a = digit_char b \<longleftrightarrow> a = b"
  unfolding digit_char_def by (subst nth_eq_iff_index_eq) simp_all

lemma show_nat_nonempty: "show_nat n \<noteq> []"
  by (subst show_nat.simps) simp

lemma show_nat_inj: "show_nat a = show_nat b \<Longrightarrow> a = b"
proof (induction a arbitrary: b rule: show_nat.induct)
  case (1 n)
  show ?case
  proof (cases "n < 10")
    case True
    then have n: "show_nat n = [digit_char n]" by (subst show_nat.simps) simp
    show ?thesis
    proof (cases "b < 10")
      case True
      then have "show_nat b = [digit_char b]" by (subst show_nat.simps) simp
      with n "1.prems" \<open>n < 10\<close> True show ?thesis by (simp add: digit_char_inj)
    next
      case False
      then have "show_nat b = show_nat (b div 10) @ [digit_char (b mod 10)]"
        by (subst show_nat.simps) simp
      with n "1.prems" show_nat_nonempty [of "b div 10"] show ?thesis by simp
    qed
  next
    case False
    then have n: "show_nat n = show_nat (n div 10) @ [digit_char (n mod 10)]"
      by (subst show_nat.simps) simp
    show ?thesis
    proof (cases "b < 10")
      case True
      then have "show_nat b = [digit_char b]" by (subst show_nat.simps) simp
      with n "1.prems" show_nat_nonempty [of "n div 10"] show ?thesis by simp
    next
      case b: False
      then have "show_nat b = show_nat (b div 10) @ [digit_char (b mod 10)]"
        by (subst show_nat.simps) simp
      with n "1.prems" have "show_nat (n div 10) = show_nat (b div 10)"
        and "digit_char (n mod 10) = digit_char (b mod 10)" by simp_all
      then have "n div 10 = b div 10" "n mod 10 = b mod 10"
        using "1.IH" [OF False] by (simp_all add: digit_char_inj)
      then show ?thesis by (metis div_mult_mod_eq)
    qed
  qed
qed

lemma sensor_key_inj [simp]: "sensor_key a = sensor_key b \<longleftrightarrow> a = b"
  by (auto simp: sensor_key_def dest: show_nat_inj)

lemma sensor_key_not_time [simp]: "sensor_key a \<noteq> ''time''" "''time'' \<noteq> sensor_key a"
  by (simp_all add: sensor_key_def)

lemma map_of_add_series:
  "map_of (add_series arr i p) k =
     (case find (\<lambda>s. s_id s = i) arr of
        None \<Rightarrow> map_of p k
      | Some s \<Rightarrow> if k = sensor_key i then Some (Num (s_value s)) else map_of p k)"
  by (simp add: add_series_def update_conv' split: option.split)

lemma map_of_fold_time:
  "map_of (fold (add_series arr) sel p) ''time'' = map_of p ''time''"
  by (induction sel arbitrary: p) (simp_all add: map_of_add_series split: option.split)

lemma map_of_fold_key:
  "map_of (fold (add_series arr) sel p) (sensor_key i) =
     (case find (\<lambda>s. s_id s = i) arr of
        None \<Rightarrow> map_of p (sensor_key i)
      | Some s \<Rightarrow> if i \<in> set sel then Some (Num (s_value s)) else map_of p (sensor_key i))"
proof (induction sel arbitrary: p)
  case Nil
  then show ?case by (simp split: option.split)
next
  case (Cons j sel)
  show ?case
    by (cases "j = i") (simp_all add: Cons.IH map_of_add_series split: option.split)
qed

lemma dom_fold_subset:
  "dom (map_of (fold (add_series arr) sel p)) \<subseteq> dom (map_of p) \<union> sensor_key ` set sel"
proof (induction sel arbitrary: p)
  case Nil
  then show ?case by simp
next
  case (Cons j sel)
  have "dom (map_of (add_series arr j p)) \<subseteq> insert (sensor_key j) (dom (map_of p))"
    by (auto simp: map_of_add_series split: option.splits if_splits)
  with Cons.IH [of "add_series arr j p"] show ?case by auto
qed

lemma map_of_build_point_key:
  "map_of (build_point arr sel now) (sensor_key i) =
     (if i \<in> set sel then map_option (\<lambda>s. Num (s_value s)) (find (\<lambda>s. s_id s = i) arr) else None)"
  by (simp add: build_point_def map_of_fold_key split: option.split)

lemma map_of_build_point_time: "map_of (build_point arr sel now) ''time'' = Some (Str now)"
  by (simp add: build_point_def map_of_fold_time)

lemma find_id_None: "find (\<lambda>s. s_id s = i) arr = None \<longleftrightarrow> i \<notin> s_id ` set arr"
  by (auto simp: find_None_iff)

lemma chartData_tick [simp]:
  "chartData (tick v rnd now st)
     = appendSample (sensors st) (selectedSensors st) now (chartData st)"
  by (simp add: tick_def)

text \<open>
  C9. The point built for a tick has the key \<open>time\<close>, holding the tick's label, and the
  key \<open>sensor_i\<close> exactly for the selected ids \<open>i\<close> that some sensor of the array has; a
  selected id that no sensor has leaves no key. The point is appended whatever the lookups
  gave: the buffer after the tick is not empty and ends with this point.
\<close>

theorem chart_point_keys:
  "dom (map_of (build_point arr sel now))
     = insert ''time'' (sensor_key ` (set sel \<inter> s_id ` set arr))
   \<and> (sensor_key i \<in> dom (map_of (build_point arr sel now))
        \<longleftrightarrow> i \<in> set sel \<and> i \<in> s_id ` set arr)
   \<and> map_of (build_point arr sel now) ''time'' = Some (Str now)
   \<and> appendSample arr sel now prev \<noteq> []
   \<and> last (appendSample arr sel now prev) = build_point arr sel now
   \<and> last (chartData (tick v rnd now st)) = build_point (sensors st) (selectedSensors st) now"
proof -
  have key: "sensor_key i \<in> dom (map_of (build_point arr sel now))
        \<longleftrightarrow> i \<in> set sel \<and> i \<in> s_id ` set arr" for i
    using find_id_None [of i arr]
    by (cases "find (\<lambda>s. s_id s = i) arr") (auto simp: map_of_build_point_key domIff)
  have sub: "dom (map_of (build_point arr sel now)) \<subseteq> insert ''time'' (sensor_key ` set sel)"
    using dom_fold_subset [of arr sel "[(''time'', Str now)]"] by (auto simp: build_point_def)
  have "dom (map_of (build_point arr sel now))
     = insert ''time'' (sensor_key ` (set sel \<inter> s_id ` set arr))"
  proof (rule set_eqI)
    fix k
    show "k \<in> dom (map_of (build_point arr sel now))
      \<longleftrightarrow> k \<in> insert ''time'' (sensor_key ` (set sel \<inter> s_id ` set arr))"
    proof (cases "k = ''time''")
      case True
      then show ?thesis by (simp add: map_of_build_point_time domIff)
    next
      case False
      show ?thesis
      proof (cases "\<exists>i. k = sensor_key i")
        case True
        then obtain i where "k = sensor_key i" ..
        with key [of i] False show ?thesis by auto
      next
        case no: False
        with False sub have "k \<notin> dom (map_of (build_point arr sel now))" by auto
        with no False show ?thesis by auto
      qed
    qed
  qed
  with key show ?thesis
    by (simp add: map_of_build_point_time appendSample_def)
qed

theorem chart_point_keys_witness:
  "build_point [hot 79] [1, 2] ''12:00:01'' = [(''time'', Str ''12:00:01''), (''sensor_1'', Num 79)]
   \<and> sensor_key 1 \<in> dom (map_of (build_point [hot 79] [1, 2] ''12:00:01''))
   \<and> sensor_key 2 \<notin> dom (map_of (build_point [hot 79] [1, 2] ''12:00:01''))
   \<and> last (chartData (tick KPI (\<lambda>n. 1 / 2) ''12:00:01'' stale))
       = [(''time'', Str ''12:00:01''), (''sensor_1'', Num 79)]"
proof -
  have e: "build_point [hot 79] [1, 2] ''12:00:01''
      = [(''time'', Str ''12:00:01''), (''sensor_1'', Num 79)]"
    by (simp add: build_point_def add_series_def hot_def sensor_key_def show_nat.simps
        digit_char_def)
  have s: "sensors stale = [hot 79]" "selectedSensors stale = [1, 2]"
    by (simp_all add: stale_def)
  note k1 = chart_point_keys [where i = 1 and arr = "[hot 79]" and sel = "[1, 2]"
      and now = "''12:00:01''" and prev = "[]" and v = KPI and rnd = "\<lambda>n. 1 / 2" and st = stale]
  note k2 = chart_point_keys [where i = 2 and arr = "[hot 79]" and sel = "[1, 2]"
      and now = "''12:00:01''" and prev = "[]" and v = KPI and rnd = "\<lambda>n. 1 / 2" and st = stale]
  have m: "(1::nat) \<in> set [1, 2] \<and> 1 \<in> s_id ` set [hot 79]"
    "\<not> (2 \<in> set [1, 2::nat] \<and> 2 \<in> s_id ` set [hot 79])"
    by (simp_all add: hot_def)
  have a: "sensor_key 1 \<in> dom (map_of (build_point [hot 79] [1, 2] ''12:00:01''))"
    using k1 [THEN conjunct2, THEN conjunct1] m(1) by (rule iffD2)
  have b: "sensor_key 2 \<notin> dom (map_of (build_point [hot 79] [1, 2] ''12:00:01''))"
    using k2 [THEN conjunct2, THEN conjunct1] m(2) by blast
  have "last (chartData (tick KPI (\<lambda>n. 1 / 2) ''12:00:01'' stale))
      = build_point (sensors stale) (selectedSensors stale) ''12:00:01''"
    using k1 by (elim conjE)
  then have c: "last (chartData (tick KPI (\<lambda>n. 1 / 2) ''12:00:01'' stale))
       = [(''time'', Str ''12:00:01''), (''sensor_1'', Num 79)]"
    by (simp only: s e)
  from e a b c show ?thesis by (intro conjI)
qed

subsection \<open>The sliding window\<close>

lemma length_run_points [simp]: "length (run_points v ins st) = length ins"
  by (induction v ins st rule: run_points.induct) simp_all

lemma appendSample_window:
  assumes "length prev \<le> 30"
  shows "appendSample arr sel now prev @ rest
           = drop (Suc (length prev) - 30) (prev @ build_point arr sel now # rest)"
    and "length (appendSample arr sel now prev) \<le> 30"
  using assms by (auto simp: appendSample_def)

lemma chartData_run:
  "length (chartData st) \<le> 30 \<Longrightarrow>
   chartData (run v ins st)
     = drop (length (chartData st) + length ins - 30) (chartData st @ run_points v ins st)"
proof (induction v ins st rule: run.induct)
  case (1 v st)
  then show ?case by simp
next
  case (2 v rnd now ins st)
  let ?cd = "appendSample (sensors st) (selectedSensors st) now (chartData st)"
  let ?pts = "run_points v ins (tick v rnd now st)"
  let ?p = "build_point (sensors st) (selectedSensors st) now"
  have len: "length ?cd = min 30 (Suc (length (chartData st)))"
    using "2.prems" by (auto simp: appendSample_def)
  have "chartData (run v ((rnd, now) # ins) st) = drop (length ?cd + length ins - 30) (?cd @ ?pts)"
    using "2.IH" "2.prems" appendSample_window(2) [OF "2.prems"] by simp
  also have "\<dots> = drop (length ?cd + length ins - 30)
      (drop (Suc (length (chartData st)) - 30) (chartData st @ ?p # ?pts))"
    by (simp only: appendSample_window(1) [OF "2.prems"])
  also have "\<dots> = drop (length (chartData st) + length ((rnd, now) # ins) - 30)
      (chartData st @ ?p # ?pts)"
  proof -
    have "length ?cd + length ins - 30 + (Suc (length (chartData st)) - 30)
        = length (chartData st) + length ((rnd, now) # ins) - 30"
      using "2.prems" unfolding len length_Cons by arith
    then show ?thesis by (simp only: drop_drop)
  qed
  finally show ?case by simp
qed

lemma run_points_time:
  "k < length ins \<Longrightarrow> map_of (run_points v ins st ! k) ''time'' = Some (Str (snd (ins ! k)))"
proof (induction v ins st arbitrary: k rule: run_points.induct)
  case (1 v st)
  then show ?case by simp
next
  case (2 v rnd now ins st)
  then show ?case by (cases k) (simp_all add: map_of_build_point_time)
qed

text \<open>
  C6. From an empty buffer, \<open>n\<close> ticks leave \<open>min n 30\<close> points, namely the last 30 of
  the points the ticks built, in order; a tick on a full buffer drops its first point and
  appends the new one; after 31 ticks the buffer has 30 points and starts with the point of
  the second tick, which carries the second tick's label.
\<close>

theorem trend_window:
  assumes "chartData st = []"
  shows "length (chartData (run v ins st)) = min (length ins) 30
         \<and> chartData (run v ins st) = drop (length ins - 30) (run_points v ins st)
         \<and> (length (chartData st') = 30 \<longrightarrow>
              chartData (tick v rnd now st')
                = tl (chartData st') @ [build_point (sensors st') (selectedSensors st') now])
         \<and> (length ins = 31 \<longrightarrow>
              length (chartData (run v ins st)) = 30
              \<and> hd (chartData (run v ins st)) = run_points v ins st ! 1
              \<and> map_of (hd (chartData (run v ins st))) ''time'' = Some (Str (snd (ins ! 1))))"
proof -
  have w: "chartData (run v ins st) = drop (length ins - 30) (run_points v ins st)"
    using chartData_run [of st v ins] assms by simp
  then have l: "length (chartData (run v ins st)) = min (length ins) 30"
    by (simp add: min_def)
  have full: "chartData (tick v rnd now st')
      = tl (chartData st') @ [build_point (sensors st') (selectedSensors st') now]"
    if "length (chartData st') = 30"
    using that by (simp add: appendSample_def drop_Suc)
  have last: "length (chartData (run v ins st)) = 30
      \<and> hd (chartData (run v ins st)) = run_points v ins st ! 1
      \<and> map_of (hd (chartData (run v ins st))) ''time'' = Some (Str (snd (ins ! 1)))"
    if n: "length ins = 31"
  proof -
    have h: "hd (chartData (run v ins st)) = run_points v ins st ! 1"
      using n by (simp add: w hd_drop_conv_nth)
    have t1: "map_of (run_points v ins st ! 1) ''time'' = Some (Str (snd (ins ! 1)))"
      using n by (simp add: run_points_time)
    from h t1 l n show ?thesis by simp
  qed
  from w l full last show ?thesis by blast
qed


theorem trend_window_witness:
  "chartData (init_app LOG (\<lambda>n. 1 / 2)) = []
   \<and> length (example_ticks 31) = 31
   \<and> length (chartData (run LOG (example_ticks 31) (init_app LOG (\<lambda>n. 1 / 2)))) = 30
   \<and> map_of (hd (chartData (run LOG (example_ticks 31) (init_app LOG (\<lambda>n. 1 / 2))))) ''time''
       = Some (Str ''tick 2'')
   \<and> length (chartData (run KPI (example_ticks 7) (init_app KPI (\<lambda>n. 1 / 2)))) = 7"
proof -
  have e: "chartData (init_app v (\<lambda>n. 1 / 2)) = []" for v
    by (simp add: init_app_def)
  have n: "length (example_ticks 31) = 31" "length (example_ticks 7) = 7"
    by (simp_all add: example_ticks_def del: upt_rec_numeral)
  have t: "snd (example_ticks 31 ! 1) = ''tick 2''"
    by (simp add: example_ticks_def show_nat.simps digit_char_def del: upt_rec_numeral)
  note a = trend_window [OF e [of LOG], where v = LOG and ins = "example_ticks 31"]
  note b = trend_window [OF e [of KPI], where v = KPI and ins = "example_ticks 7"]
  have "length (chartData (run LOG (example_ticks 31) (init_app LOG (\<lambda>n. 1 / 2)))) = 30
    \<and> map_of (hd (chartData (run LOG (example_ticks 31) (init_app LOG (\<lambda>n. 1 / 2))))) ''time''
       = Some (Str (snd (example_ticks 31 ! 1)))"
    using a n(1) by blast
  then have c: "length (chartData (run LOG (example_ticks 31) (init_app LOG (\<lambda>n. 1 / 2)))) = 30
    \<and> map_of (hd (chartData (run LOG (example_ticks 31) (init_app LOG (\<lambda>n. 1 / 2))))) ''time''
       = Some (Str ''tick 2'')"
    by (simp only: t)
  have "length (chartData (run KPI (example_ticks 7) (init_app KPI (\<lambda>n. 1 / 2))))
      = min (length (example_ticks 7)) 30"
    using b by blast
  then have d: "length (chartData (run KPI (example_ticks 7) (init_app KPI (\<lambda>n. 1 / 2)))) = 7"
    by (simp add: n(2))
  from e [of LOG] n(1) c d show ?thesis by blast
qed

section \<open>What a tick reads\<close>

lemma dataLog_tick [simp]:
  "dataLog (tick LOG rnd now st) = appendLog (sensors st) now (dataLog st)"
  by (simp add: tick_def)

lemma length_recentSensors [simp]:
  "length (recentSensors arr now prev) = min 5 (length arr)"
  by (simp add: recentSensors_def min.commute)

lemma recentSensors_nth:
  assumes "idx < 5" and "idx < length arr"
  shows "recentSensors arr now prev ! idx
     = \<lparr> l_no = length prev + idx + 1, l_time = now, l_sensorName = s_name (arr ! idx),
         l_value = toFixed2 (s_value (arr ! idx)), l_status = s_status (arr ! idx) \<rparr>"
  using assms by (simp add: recentSensors_def nth_enumerate_eq)

lemma appendLog_take:
  "take (min 5 (length arr)) (appendLog arr now prev) = recentSensors arr now prev"
  by (simp add: appendLog_def min_def)

lemma appendLog_nth:
  assumes "idx < 5" and "idx < length arr"
  shows "appendLog arr now prev ! idx = recentSensors arr now prev ! idx"
  using assms by (simp add: appendLog_def nth_append)

text \<open>
  C10. The last chart point after a tick is the point built from the sensors and the
  selection of the state the tick started from: under \<open>sensor_i\<close> it holds the value that
  the first sensor with id \<open>i\<close> had before the update. In the log variant the entries the
  tick puts at the front of the log are those built from the first five sensors of that
  same state, with their values before the update.
\<close>

theorem tick_reads_snapshot:
  "last (chartData (tick v rnd now st)) = build_point (sensors st) (selectedSensors st) now
   \<and> (i \<in> set (selectedSensors st) \<longrightarrow> find (\<lambda>s. s_id s = i) (sensors st) = Some s \<longrightarrow>
        map_of (last (chartData (tick v rnd now st))) (sensor_key i) = Some (Num (s_value s)))
   \<and> take (min 5 (length (sensors st))) (dataLog (tick LOG rnd now st))
        = recentSensors (sensors st) now (dataLog st)
   \<and> (idx < 5 \<longrightarrow> idx < length (sensors st) \<longrightarrow>
        dataLog (tick LOG rnd now st) ! idx
          = \<lparr> l_no = length (dataLog st) + idx + 1, l_time = now,
              l_sensorName = s_name (sensors st ! idx),
              l_value = toFixed2 (s_value (sensors st ! idx)),
              l_status = s_status (sensors st ! idx) \<rparr>)"
proof -
  have p: "last (chartData (tick v rnd now st)) = build_point (sensors st) (selectedSensors st) now"
    by (simp add: appendSample_def)
  have k: "map_of (last (chartData (tick v rnd now st))) (sensor_key i) = Some (Num (s_value s))"
    if "i \<in> set (selectedSensors st)" "find (\<lambda>s. s_id s = i) (sensors st) = Some s"
    using that by (simp only: p map_of_build_point_key) simp
  have t: "take (min 5 (length (sensors st))) (dataLog (tick LOG rnd now st))
        = recentSensors (sensors st) now (dataLog st)"
    by (simp only: dataLog_tick appendLog_take)
  have e: "dataLog (tick LOG rnd now st) ! idx
          = \<lparr> l_no = length (dataLog st) + idx + 1, l_time = now,
              l_sensorName = s_name (sensors st ! idx),
              l_value = toFixed2 (s_value (sensors st ! idx)),
              l_status = s_status (sensors st ! idx) \<rparr>"
    if "idx < 5" "idx < length (sensors st)"
    using that by (simp only: dataLog_tick appendLog_nth recentSensors_nth)
  from p k t e show ?thesis by blast
qed

theorem tick_reads_snapshot_witness:
  "1 \<in> set (selectedSensors stale)
   \<and> find (\<lambda>s. s_id s = 1) (sensors stale) = Some (hot 79)
   \<and> (0::nat) < 5 \<and> 0 < length (sensors stale)
   \<and> map_of (last (chartData (tick LOG (\<lambda>n. 9 / 10) ''12:00:01'' stale))) (sensor_key 1)
       = Some (Num 79)
   \<and> l_value (dataLog (tick LOG (\<lambda>n. 9 / 10) ''12:00:01'' stale) ! 0) = ''79.00''
   \<and> map s_value (sensors (tick LOG (\<lambda>n. 9 / 10) ''12:00:01'' stale)) = [81]"
proof -
  have h: "1 \<in> set (selectedSensors stale)" "find (\<lambda>s. s_id s = 1) (sensors stale) = Some (hot 79)"
    "(0::nat) < 5" "0 < length (sensors stale)"
    by (simp_all add: stale_def hot_def)
  note r = tick_reads_snapshot [where v = LOG and rnd = "\<lambda>n. 9 / 10" and now = "''12:00:01''"
      and st = stale and i = 1 and s = "hot 79" and idx = 0]
  have a: "map_of (last (chartData (tick LOG (\<lambda>n. 9 / 10) ''12:00:01'' stale))) (sensor_key 1)
       = Some (Num (s_value (hot 79)))"
    using r h(1,2) by blast
  have b: "dataLog (tick LOG (\<lambda>n. 9 / 10) ''12:00:01'' stale) ! 0
      = \<lparr> l_no = length (dataLog stale) + 0 + 1, l_time = ''12:00:01'',
          l_sensorName = s_name (sensors stale ! 0),
          l_value = toFixed2 (s_value (sensors stale ! 0)),
          l_status = s_status (sensors stale ! 0) \<rparr>"
    using r h(3,4) by blast
  have v: "s_value (hot 79) = 79" "s_value (sensors stale ! 0) = 79"
    by (simp_all add: stale_def hot_def)
  have f: "toFixed2 79 = ''79.00''"
    by (simp add: toFixed2_def show_nat.simps digit_char_def)
  have c: "map s_value (sensors (tick LOG (\<lambda>n. 9 / 10) ''12:00:01'' stale)) = [81]"
    by (simp add: stale_def hot_def tick_sensors_def sort_by_risk_def)
  from a have a': "map_of (last (chartData (tick LOG (\<lambda>n. 9 / 10) ''12:00:01'' stale))) (sensor_key 1)
       = Some (Num 79)"
    by (simp only: v)
  from b have b': "l_value (dataLog (tick LOG (\<lambda>n. 9 / 10) ''12:00:01'' stale) ! 0) = ''79.00''"
    by (simp only: v f log_entry.simps)
  from h a' b' c show ?thesis by blast
qed

section \<open>Log sequence numbers\<close>

lemma length_tick_sensors [simp]: "length (tick_sensors v rnd arr) = length arr"
  by (simp add: tick_sensors_def)

lemma nos_recentSensors:
  "map l_no (recentSensors arr now prev)
     = map (\<lambda>idx. length prev + idx + 1) [0..<min 5 (length arr)]"
proof -
  have "map l_no (recentSensors arr now prev)
      = map ((\<lambda>idx. length prev + idx + 1) \<circ> fst) (enumerate 0 (take 5 arr))"
    by (simp add: recentSensors_def case_prod_unfold comp_def)
  also have "\<dots> = map (\<lambda>idx. length prev + idx + 1) (map fst (enumerate 0 (take 5 arr)))"
    by (simp only: map_map)
  also have "\<dots> = map (\<lambda>idx. length prev + idx + 1) [0..<min 5 (length arr)]"
    by (simp add: min.commute)
  finally show ?thesis .
qed

lemma length_appendLog:
  "length (appendLog arr now prev) = min 100 (min 5 (length arr) + length prev)"
  by (simp add: appendLog_def min.commute)

lemma log_numbers_nth:
  assumes "k < length ins" and "5 \<le> length (sensors st)" and "length (dataLog st) \<le> 100"
  shows "log_numbers ins st ! k
     = map (\<lambda>idx. min 100 (length (dataLog st) + 5 * k) + idx + 1) [0..<5]"
  using assms
proof (induction ins st arbitrary: k rule: log_numbers.induct)
  case (1 st)
  then show ?case by simp
next
  case (2 rnd now ins st)
  show ?case
  proof (cases k)
    case 0
    with "2.prems" show ?thesis by (simp add: nos_recentSensors min_def del: upt_rec_numeral)
  next
    case (Suc j)
    with "2.prems" have j: "j < length ins" by simp
    have l: "length (dataLog (tick LOG rnd now st)) \<le> 100"
      by (simp add: length_appendLog)
    have "min 100 (length (dataLog (tick LOG rnd now st)) + 5 * j)
        = min 100 (length (dataLog st) + 5 * Suc j)"
      using "2.prems" by (simp add: length_appendLog min_def)
    with "2.IH" [OF j _ l] "2.prems" Suc show ?thesis
      by (simp del: upt_rec_numeral dataLog_tick)
  qed
qed

text \<open>
  C4 fails on the code. The number of a new entry is the length of the log plus its index
  plus one, and the log stops growing at 100 entries: from the initial state the 20th tick
  writes the numbers 96 to 100, the 21st writes 101 to 105, and the 22nd writes 101 to 105
  again.
\<close>

theorem log_numbers_repeat:
  "log_numbers (example_ticks 22) (init_app LOG (\<lambda>n. 1 / 2)) ! 19 = [96, 97, 98, 99, 100]
   \<and> log_numbers (example_ticks 22) (init_app LOG (\<lambda>n. 1 / 2)) ! 20 = [101, 102, 103, 104, 105]
   \<and> log_numbers (example_ticks 22) (init_app LOG (\<lambda>n. 1 / 2)) ! 21 = [101, 102, 103, 104, 105]"
proof -
  have n: "length (example_ticks 22) = 22"
    by (simp add: example_ticks_def del: upt_rec_numeral)
  have "collection_ok (sensors (init_app LOG (\<lambda>n. 1 / 2)))"
    by (simp add: init_app_def collection_ok_generate)
  then have s: "5 \<le> length (sensors (init_app LOG (\<lambda>n. 1 / 2)))"
    by (simp add: collection_ok_def)
  have d: "length (dataLog (init_app LOG (\<lambda>n. 1 / 2))) = 0"
    by (simp add: init_app_def)
  have u: "[0..<5] = [0, 1, 2, 3, 4::nat]" by (simp add: upt_rec)
  have "log_numbers (example_ticks 22) (init_app LOG (\<lambda>n. 1 / 2)) ! 19 = [96, 97, 98, 99, 100]"
    using log_numbers_nth [of 19 "example_ticks 22", OF _ s] n d by (simp add: u)
  moreover have "log_numbers (example_ticks 22) (init_app LOG (\<lambda>n. 1 / 2)) ! 20
      = [101, 102, 103, 104, 105]"
    using log_numbers_nth [of 20 "example_ticks 22", OF _ s] n d by (simp add: u)
  moreover have "log_numbers (example_ticks 22) (init_app LOG (\<lambda>n. 1 / 2)) ! 21
      = [101, 102, 103, 104, 105]"
    using log_numbers_nth [of 21 "example_ticks 22", OF _ s] n d by (simp add: u)
  ultimately show ?thesis by blast
qed

end
